theory Spec2Isabelle
  imports Complex_Main "HOL-Library.Multiset"
begin

text \<open>
  A shallow embedding of the simulation core, the class \<open>QuantumSimulator\<close>: the circuit
  evolver (\<open>applyGate\<close> and the ideal run of \<open>simulate\<close>), the noise engine
  (\<open>applyNoiseModel\<close>), \<open>calculateFidelity\<close> and \<open>toDict\<close>. Arrays are lists, each \<open>for\<close>
  loop is a recursive function over the indices it still has to visit, and a run that
  would read an absent array element ends in a fault.
\<close>

unbundle bit_operations_syntax

section \<open>Data model (types.ts)\<close>

datatype GateType = H | X | Y | Z | CNOT | I

datatype NoiseType = DEPOLARIZING | AMPLITUDE_DAMPING | PHASE_DAMPING | BIT_FLIP | PHASE_FLIP

text \<open>
  A gate. The optional field \<open>control\<close> is \<open>None\<close> where the source has \<open>undefined\<close>.
  Qubit indices and time steps are natural numbers.
\<close>

record Gate =
  gate_id :: string
  gate_type :: GateType
  qubit :: nat
  control :: "nat option"
  time :: nat

record NoiseConfig =
  noise_type :: NoiseType
  probability :: real

text \<open>
  One complex amplitude, the object \<open>{real, imag}\<close> of the simulator. The numbers of the
  source are IEEE doubles; they are modelled as mathematical reals, so every statement
  below is about exact arithmetic.
\<close>

record Amp =
  real_p :: real
  imag_p :: real

record SimulationResult =
  probabilities :: "string \<rightharpoonup> real"
  noisyProbabilities :: "string \<rightharpoonup> real"
  fidelity :: real
  qubitCount :: nat

text \<open>
  Reading an array element that does not exist yields \<open>undefined\<close> in the source; the
  property access that follows throws a TypeError (Hadamard), or the array holds
  \<open>undefined\<close> entries from then on (the swaps), or the arithmetic yields NaN.
  The model stops with the fault \<open>Undefined\<close> at the read. The square root of a negative
  number is NaN in the source; the model stops with the fault \<open>NaN\<close> there.
\<close>

datatype fault = Undefined | NaN

section \<open>32-bit integer operators\<close>

text \<open>
  The operators \<open><<\<close>, \<open>^\<close> and \<open>&\<close> of the source work on signed 32-bit integers:
  each operand is wrapped into the range from \<open>-2^31\<close> to \<open>2^31 - 1\<close>, and the shift
  count is taken modulo 32.
\<close>

definition toInt32 :: "int \<Rightarrow> int" where
  "toInt32 k = (k + 2 ^ 31) mod 2 ^ 32 - 2 ^ 31"

definition shl1 :: "nat \<Rightarrow> int" where
  \<comment> \<open>\<open>1 << q\<close>\<close>
  "shl1 q = toInt32 (2 ^ (q mod 32))"

definition xor32 :: "int \<Rightarrow> int \<Rightarrow> int" where
  \<comment> \<open>\<open>a ^ b\<close>\<close>
  "xor32 a b = toInt32 a XOR toInt32 b"

definition and32 :: "int \<Rightarrow> int \<Rightarrow> int" where
  \<comment> \<open>\<open>a & b\<close>\<close>
  "and32 a b = toInt32 a AND toInt32 b"

section \<open>Circuit evolver: applyGate\<close>

definition elem_at :: "'a list \<Rightarrow> int \<Rightarrow> fault + 'a" where
  \<comment> \<open>\<open>xs[k]\<close> followed by a use of the element\<close>
  "elem_at xs k = (if 0 \<le> k \<and> k < int (length xs) then Inr (xs ! nat k) else Inl Undefined)"

definition swap :: "Amp list \<Rightarrow> nat \<Rightarrow> int \<Rightarrow> fault + Amp list" where
  \<comment> \<open>\<open>temp = newAmps[i]; newAmps[i] = newAmps[target]; newAmps[target] = temp\<close>\<close>
  "swap newAmps i target =
     (case (elem_at newAmps (int i), elem_at newAmps target) of
        (Inr temp, Inr other) \<Rightarrow> Inr (newAmps[i := other, nat target := temp])
      | _ \<Rightarrow> Inl Undefined)"

text \<open>The loop of the X branch, over the indices still to visit.\<close>

fun X_loop :: "nat \<Rightarrow> nat list \<Rightarrow> Amp list \<Rightarrow> fault + Amp list" where
  "X_loop q [] newAmps = Inr newAmps"
| "X_loop q (i # rest) newAmps =
     (let mask = shl1 q;
          target = xor32 (int i) mask
      in if int i < target
         then (case swap newAmps i target of
                 Inl e \<Rightarrow> Inl e
               | Inr newAmps' \<Rightarrow> X_loop q rest newAmps')
         else X_loop q rest newAmps)"

text \<open>
  The loop of the H branch. It takes the mask \<open>1 << gate.qubit\<close> computed before it,
  reads the argument array \<open>amplitudes\<close>, writes into \<open>newAmps\<close> and keeps the set
  \<open>processed\<close> of indices already written.
\<close>

definition invSqrt2 :: real where
  "invSqrt2 = 1 / sqrt 2"

fun H_loop ::
  "Amp list \<Rightarrow> int \<Rightarrow> nat list \<Rightarrow> Amp list \<times> int set \<Rightarrow> fault + Amp list \<times> int set" where
  "H_loop amplitudes hmask [] st = Inr st"
| "H_loop amplitudes hmask (i # rest) (newAmps, processed) =
     (if int i \<in> processed then H_loop amplitudes hmask rest (newAmps, processed)
      else
        let j = xor32 (int i) hmask;
            isSet = (and32 (int i) hmask \<noteq> 0);
            low = (if isSet then j else int i);
            high = (if isSet then int i else j)
        in case (elem_at amplitudes low, elem_at amplitudes high) of
             (Inr aLow, Inr aHigh) \<Rightarrow>
               H_loop amplitudes hmask rest
                 (newAmps
                    [nat low := \<lparr>real_p = (real_p aLow + real_p aHigh) * invSqrt2,
                                 imag_p = (imag_p aLow + imag_p aHigh) * invSqrt2\<rparr>,
                     nat high := \<lparr>real_p = (real_p aLow - real_p aHigh) * invSqrt2,
                                  imag_p = (imag_p aLow - imag_p aHigh) * invSqrt2\<rparr>],
                  insert high (insert low processed))
           | _ \<Rightarrow> Inl Undefined)"

text \<open>
  The loop of the CNOT branch, with the two masks \<open>1 << gate.control\<close> and
  \<open>1 << gate.qubit\<close> computed before it.
\<close>

fun CNOT_loop :: "int \<Rightarrow> int \<Rightarrow> nat list \<Rightarrow> Amp list \<Rightarrow> fault + Amp list" where
  "CNOT_loop controlMask targetMask [] newAmps = Inr newAmps"
| "CNOT_loop controlMask targetMask (i # rest) newAmps =
     (if and32 (int i) controlMask \<noteq> 0
      then
        (let target = xor32 (int i) targetMask
         in if int i < target
            then (case swap newAmps i target of
                    Inl e \<Rightarrow> Inl e
                  | Inr newAmps' \<Rightarrow> CNOT_loop controlMask targetMask rest newAmps')
            else CNOT_loop controlMask targetMask rest newAmps)
      else CNOT_loop controlMask targetMask rest newAmps)"

text \<open>
  \<open>applyGate\<close>: the copy \<open>newAmps\<close> of the argument is the argument itself (lists are
  values). Gate kinds other than X, H and CNOT with a control reach no branch.
\<close>

definition applyGate :: "Amp list \<Rightarrow> Gate \<Rightarrow> fault + Amp list" where
  "applyGate amplitudes gate =
     (let newAmps = amplitudes;
          states = length amplitudes
      in if gate_type gate = X then X_loop (qubit gate) [0..<states] newAmps
         else if gate_type gate = H then
           (case H_loop amplitudes (shl1 (qubit gate)) [0..<states] (newAmps, {}) of
              Inl e \<Rightarrow> Inl e
            | Inr (newAmps', processed) \<Rightarrow> Inr newAmps')
         else if gate_type gate = CNOT \<and> control gate \<noteq> None then
           (let controlMask = shl1 (the (control gate));
                targetMask = shl1 (qubit gate)
            in CNOT_loop controlMask targetMask [0..<states] newAmps)
         else Inr newAmps)"

text \<open>
  The ideal run of \<open>simulate\<close>: the gates sorted by time (the sort of the source is
  stable, as \<open>sort_key\<close> is), applied one after the other to the basis state of index 0,
  and the squared magnitudes of the final amplitudes.
\<close>

fun applyGates :: "Amp list \<Rightarrow> Gate list \<Rightarrow> fault + Amp list" where
  "applyGates idealAmplitudes [] = Inr idealAmplitudes"
| "applyGates idealAmplitudes (gate # rest) =
     (case applyGate idealAmplitudes gate of
        Inl e \<Rightarrow> Inl e
      | Inr idealAmplitudes' \<Rightarrow> applyGates idealAmplitudes' rest)"

definition initialAmplitudes :: "nat \<Rightarrow> Amp list" where
  "initialAmplitudes numQubits =
     (replicate (2 ^ numQubits) \<lparr>real_p = 0, imag_p = 0\<rparr>)[0 := \<lparr>real_p = 1, imag_p = 0\<rparr>]"

definition idealProbs :: "nat \<Rightarrow> Gate list \<Rightarrow> fault + real list" where
  "idealProbs numQubits gates =
     (let sortedGates = sort_key time gates
      in case applyGates (initialAmplitudes numQubits) sortedGates of
           Inl e \<Rightarrow> Inl e
         | Inr idealAmplitudes \<Rightarrow>
             Inr (map (\<lambda>amp. (real_p amp)\<^sup>2 + (imag_p amp)\<^sup>2) idealAmplitudes))"

section \<open>Noise engine: applyNoiseModel\<close>

definition totalError :: "real \<Rightarrow> nat \<Rightarrow> real" where
  \<comment> \<open>\<open>1 - Math.pow(1 - p, Math.max(1, gateCount))\<close>\<close>
  "totalError p gateCount = 1 - (1 - p) ^ max 1 gateCount"

text \<open>
  The loop of the BIT_FLIP branch updates \<open>result\<close> in place. Every index it visits and
  its partner \<open>flipped\<close> lie below \<open>states\<close>, the length of \<open>result\<close>.
\<close>

fun BIT_FLIP_loop :: "real \<Rightarrow> nat \<Rightarrow> nat list \<Rightarrow> real list \<Rightarrow> real list" where
  "BIT_FLIP_loop flipAmount states [] result = result"
| "BIT_FLIP_loop flipAmount states (i # rest) result =
     (let flipped = (states - 1) - i
      in BIT_FLIP_loop flipAmount states rest
           (result[i := result ! i * (1 - flipAmount) + result ! flipped * flipAmount]))"

text \<open>The loop of the AMPLITUDE_DAMPING branch, from index 1 on.\<close>

fun AMPLITUDE_DAMPING_loop :: "real \<Rightarrow> nat list \<Rightarrow> real list \<Rightarrow> real list" where
  "AMPLITUDE_DAMPING_loop decay [] result = result"
| "AMPLITUDE_DAMPING_loop decay (i # rest) result =
     AMPLITUDE_DAMPING_loop decay rest (result[i := result ! i * (1 - decay)])"

text \<open>
  The perturbation, that is \<open>applyNoiseModel\<close> up to the renormalisation. PHASE_DAMPING
  and PHASE_FLIP reach the final \<open>else\<close>. AMPLITUDE_DAMPING reads \<open>result[0]\<close>, which an
  empty vector does not have. The local constant \<open>totalError\<close> of the source is bound
  to the result of the function \<open>totalError\<close> above.
\<close>

definition perturb :: "real list \<Rightarrow> NoiseConfig \<Rightarrow> nat \<Rightarrow> fault + real list" where
  "perturb ideal noise gateCount =
     (let p = probability noise;
          states = length ideal;
          result = ideal;
          totalError = totalError p gateCount
      in if noise_type noise = DEPOLARIZING then
           (let uniform = 1 / real states
            in Inr (map (\<lambda>val. val * (1 - totalError) + uniform * totalError) result))
         else if noise_type noise = BIT_FLIP then
           (let flipAmount = totalError * 0.4
            in Inr (BIT_FLIP_loop flipAmount states [0..<states] result))
         else if noise_type noise = AMPLITUDE_DAMPING then
           (let decay = totalError * 0.8
            in case elem_at result 0 of
                 Inl e \<Rightarrow> Inl e
               | Inr r0 \<Rightarrow>
                   Inr (AMPLITUDE_DAMPING_loop decay [1..<states]
                          (result[0 := r0 + (1 - r0) * decay])))
         else Inr (map (\<lambda>val. val * (1 - totalError) + (1 / real states) * totalError) result))"

definition renormalize :: "real list \<Rightarrow> real list" where
  \<comment> \<open>\<open>sum = result.reduce((a, b) => a + b, 0); result.map(v => v / (sum || 1))\<close>\<close>
  "renormalize result =
     (let sum = foldl (\<lambda>a b. a + b) 0 result
      in map (\<lambda>v. v / (if sum = 0 then 1 else sum)) result)"

definition applyNoiseModel :: "real list \<Rightarrow> NoiseConfig \<Rightarrow> nat \<Rightarrow> fault + real list" where
  "applyNoiseModel ideal noise gateCount =
     (case perturb ideal noise gateCount of
        Inl e \<Rightarrow> Inl e
      | Inr result \<Rightarrow> Inr (renormalize result))"

section \<open>Fidelity\<close>

fun overlap_loop :: "real list \<Rightarrow> real list \<Rightarrow> nat list \<Rightarrow> real \<Rightarrow> fault + real" where
  "overlap_loop ideal noisy [] overlap = Inr overlap"
| "overlap_loop ideal noisy (i # rest) overlap =
     (case (elem_at ideal (int i), elem_at noisy (int i)) of
        (Inr a, Inr b) \<Rightarrow>
          if a * b < 0 then Inl NaN
          else overlap_loop ideal noisy rest (overlap + sqrt (a * b))
      | _ \<Rightarrow> Inl Undefined)"

definition calculateFidelity :: "real list \<Rightarrow> real list \<Rightarrow> fault + real" where
  "calculateFidelity ideal noisy =
     (case overlap_loop ideal noisy [0..<length ideal] 0 of
        Inl e \<Rightarrow> Inl e
      | Inr overlap \<Rightarrow> Inr (min 1 (overlap * overlap)))"

section \<open>The result of a simulation\<close>

text \<open>
  \<open>i.toString(2).padStart(n, '0')\<close>: the binary digits of \<open>i\<close>, most significant first,
  filled with zeros on the left up to width \<open>n\<close>.
\<close>

fun toString2 :: "nat \<Rightarrow> string" where
  "toString2 i =
     (if i < 2 then (if i = 0 then ''0'' else ''1'')
      else toString2 (i div 2) @ (if i mod 2 = 0 then ''0'' else ''1''))"

definition padStart :: "nat \<Rightarrow> char \<Rightarrow> string \<Rightarrow> string" where
  "padStart n c s = replicate (n - length s) c @ s"

definition toDict :: "nat \<Rightarrow> real list \<Rightarrow> (string \<rightharpoonup> real)" where
  "toDict n probs =
     fold (\<lambda>(i, p) dict. dict(padStart n (CHR ''0'') (toString2 i) \<mapsto> p))
       (zip [0..<length probs] probs) Map.empty"

definition simulate :: "nat \<Rightarrow> Gate list \<Rightarrow> NoiseConfig \<Rightarrow> fault + SimulationResult" where
  "simulate numQubits gates noise =
     (case idealProbs numQubits gates of
        Inl e \<Rightarrow> Inl e
      | Inr idealProbs' \<Rightarrow>
          (case applyNoiseModel idealProbs' noise (length gates) of
             Inl e \<Rightarrow> Inl e
           | Inr noisyDist \<Rightarrow>
               (case calculateFidelity idealProbs' noisyDist of
                  Inl e \<Rightarrow> Inl e
                | Inr fidelity' \<Rightarrow>
                    Inr \<lparr>probabilities = toDict numQubits idealProbs',
                         noisyProbabilities = toDict numQubits noisyDist,
                         fidelity = fidelity',
                         qubitCount = numQubits\<rparr>)))"

section \<open>The Bell preset of the editor\<close>

text \<open>The circuit that \<open>loadPreset\<close> of App.tsx installs under the name \<open>bell\<close>.\<close>

definition bell_circuit :: "Gate list" where
  "bell_circuit = [\<lparr>gate_id = ''1'', gate_type = H, qubit = 0, control = None, time = 0\<rparr>,
                   \<lparr>gate_id = ''2'', gate_type = CNOT, qubit = 1, control = Some 0, time = 1\<rparr>]"

section \<open>Notions used to state the properties\<close>

text \<open>The total probability of an amplitude array.\<close>

definition totalProbability :: "Amp list \<Rightarrow> real" where
  "totalProbability amplitudes =
     sum_list (map (\<lambda>amp. (real_p amp)\<^sup>2 + (imag_p amp)\<^sup>2) amplitudes)"

text \<open>
  The indices at which the body of the H loop runs, in order: the control flow of
  \<open>H_loop\<close> (the test on \<open>processed\<close>, the choice of \<open>low\<close> and \<open>high\<close>, the two
  additions to \<open>processed\<close>) without the amplitudes.
\<close>

fun H_visited :: "int \<Rightarrow> nat list \<Rightarrow> int set \<Rightarrow> nat list" where
  "H_visited hmask [] processed = []"
| "H_visited hmask (i # rest) processed =
     (if int i \<in> processed then H_visited hmask rest processed
      else
        let j = xor32 (int i) hmask;
            isSet = (and32 (int i) hmask \<noteq> 0);
            low = (if isSet then j else int i);
            high = (if isSet then int i else j)
        in i # H_visited hmask rest (insert high (insert low processed)))"

text \<open>
  The Hadamard update as the specification words it, for the entry of index \<open>x\<close>:
  \<open>low\<close> is the member of the pair of \<open>x\<close> with bit \<open>q\<close> clear, \<open>high\<close> the one with the
  bit set; the new \<open>low\<close> is \<open>(low + high) / sqrt 2\<close> and the new \<open>high\<close> is
  \<open>(low - high) / sqrt 2\<close>, on the real and on the imaginary parts, from the values of
  the array before the update.
\<close>

definition spec_hadamard :: "Amp list \<Rightarrow> nat \<Rightarrow> nat \<Rightarrow> Amp" where
  "spec_hadamard amplitudes q x =
     (let low = (if bit x q then x - 2 ^ q else x);
          high = low + 2 ^ q
      in if bit x q
         then \<lparr>real_p = (real_p (amplitudes ! low) - real_p (amplitudes ! high)) / sqrt 2,
               imag_p = (imag_p (amplitudes ! low) - imag_p (amplitudes ! high)) / sqrt 2\<rparr>
         else \<lparr>real_p = (real_p (amplitudes ! low) + real_p (amplitudes ! high)) / sqrt 2,
               imag_p = (imag_p (amplitudes ! low) + imag_p (amplitudes ! high)) / sqrt 2\<rparr>)"

text \<open>
  The indices the H loop on qubit \<open>q\<close> has written once it has passed the indices
  below \<open>k\<close>: those indices, and the partners above them.
\<close>

definition written_before :: "nat \<Rightarrow> nat \<Rightarrow> nat \<Rightarrow> bool" where
  "written_before q k y \<longleftrightarrow> y < k \<or> (bit y q \<and> y - 2 ^ q < k)"

section \<open>Facts about the 32-bit operators\<close>

lemma xor_pow2_int: "(a::int) XOR 2 ^ s = (if bit a s then a - 2 ^ s else a + 2 ^ s)"
proof -
  have "a XOR 2 ^ s = flip_bit s a"
    by (simp add: flip_bit_eq_xor push_bit_eq_mult)
  also have "\<dots> = (if bit a s then a - 2 ^ s else a + 2 ^ s)"
    by (simp add: flip_bit_eq_if unset_bit_eq set_bit_eq)
  finally show ?thesis .
qed

lemma and_pow2_int: "(a::int) AND 2 ^ s \<noteq> 0 \<longleftrightarrow> bit a s"
  by (simp add: and_exp_eq_0_iff_not_bit)

lemma toInt32_le: "0 \<le> k \<Longrightarrow> toInt32 k \<le> k"
proof -
  assume "0 \<le> k"
  then have "(k + 2 ^ 31) mod 2 ^ 32 \<le> k + 2 ^ 31"
    by (intro zmod_le_nonneg_dividend) simp
  then show ?thesis unfolding toInt32_def by linarith
qed

lemma toInt32_range: "- (2 ^ 31) \<le> toInt32 k \<and> toInt32 k < 2 ^ 31"
proof -
  have "0 \<le> (k + 2 ^ 31) mod (2 ^ 32 :: int)" by (rule pos_mod_sign) simp
  moreover have "(k + 2 ^ 31) mod (2 ^ 32 :: int) < 2 ^ 32" by (rule pos_mod_bound) simp
  ultimately show ?thesis unfolding toInt32_def by simp
qed

lemma toInt32_id: "- (2 ^ 31) \<le> k \<Longrightarrow> k < 2 ^ 31 \<Longrightarrow> toInt32 k = k"
  unfolding toInt32_def by (simp add: mod_pos_pos_trivial)

lemma toInt32_idem: "toInt32 (toInt32 k) = toInt32 k"
  using toInt32_range[of k] by (intro toInt32_id) simp_all

lemma shl1_cases: "shl1 q = (if q mod 32 = 31 then - (2 ^ 31) else 2 ^ (q mod 32))"
proof (cases "q mod 32 = 31")
  case True
  then show ?thesis by (simp add: shl1_def toInt32_def)
next
  case False
  moreover have "q mod 32 < 32" by simp
  ultimately have "q mod 32 < 31" by linarith
  then have "(2::int) ^ (q mod 32) < 2 ^ 31"
    by (simp only: power_strict_increasing_iff one_less_numeral_iff semiring_norm)
  moreover have "(0::int) \<le> 2 ^ (q mod 32)" by simp
  ultimately have "toInt32 (2 ^ (q mod 32)) = 2 ^ (q mod 32)"
    by (intro toInt32_id) linarith+
  with False show ?thesis by (simp add: shl1_def)
qed

lemma toInt32_signed: "toInt32 k = signed_take_bit 31 k"
  by (simp add: toInt32_def signed_take_bit_eq_take_bit_shift take_bit_eq_mod)

lemma xor32_range: "xor32 a b < 2 ^ 31"
proof -
  have "signed_take_bit 31 a XOR signed_take_bit 31 b = signed_take_bit 31 (a XOR b)"
    by (rule bit_eqI) (simp add: bit_signed_take_bit_iff bit_xor_iff)
  then have "xor32 a b = toInt32 (a XOR b)"
    by (simp add: xor32_def toInt32_signed)
  then show ?thesis using toInt32_range[of "a XOR b"] by simp
qed

lemma and_minus_pow_zero:
  assumes "0 \<le> (a::int)" "a < 2 ^ n"
  shows "a AND - (2 ^ n) = 0"
proof -
  have a: "take_bit n a = a" using assms by (simp add: take_bit_int_eq_self)
  have "take_bit n a AND - (2 ^ n) = 0"
    by (rule bit_eqI) (auto simp add: bit_and_iff bit_take_bit_iff bit_minus_exp_iff)
  then show ?thesis by (simp add: a)
qed

text \<open>
  An index that has the bit of the mask set is never below its partner: the partner is
  the index with that bit cleared.
\<close>

lemma same_bit_no_swap:
  assumes "and32 (int i) (shl1 q) \<noteq> 0"
  shows "\<not> int i < xor32 (int i) (shl1 q)"
proof -
  define a where "a = toInt32 (int i)"
  define m where "m = shl1 q"
  have a_le: "a \<le> int i" unfolding a_def by (rule toInt32_le) simp
  have m_id: "toInt32 m = m" by (simp add: m_def shl1_def toInt32_idem)
  from assms have nz: "a AND m \<noteq> 0"
    by (simp add: and32_def a_def m_def m_id[unfolded m_def])
  have goal: "xor32 (int i) (shl1 q) = a XOR m"
    by (simp add: xor32_def a_def m_def m_id[unfolded m_def])
  show ?thesis
  proof (cases "q mod 32 = 31")
    case False
    then have m: "m = 2 ^ (q mod 32)" by (simp add: m_def shl1_cases)
    from nz have "bit a (q mod 32)" unfolding m by (simp only: and_pow2_int)
    then have "a XOR 2 ^ (q mod 32) = a - 2 ^ (q mod 32)" by (simp add: xor_pow2_int)
    moreover have "(0::int) < 2 ^ (q mod 32)" by simp
    ultimately have "a XOR m < a" unfolding m by linarith
    with a_le show ?thesis unfolding goal by linarith
  next
    case True
    then have m: "m = - (2 ^ 31)" by (simp add: m_def shl1_cases)
    have "\<not> int i < 2 ^ 31"
    proof
      assume lt: "int i < 2 ^ 31"
      then have "a = int i" unfolding a_def by (intro toInt32_id) simp_all
      then have "a AND - (2 ^ 31) = 0" using lt by (intro and_minus_pow_zero) simp_all
      with nz show False by (simp add: m)
    qed
    moreover have "xor32 (int i) (shl1 q) < 2 ^ 31" by (rule xor32_range)
    ultimately show ?thesis by linarith
  qed
qed

section \<open>Indices and their partners below \<open>2 ^ n\<close>\<close>

text \<open>
  For an array of \<open>2 ^ n\<close> amplitudes with \<open>n \<le> 31\<close> and a qubit \<open>q < n\<close> nothing wraps:
  the mask is \<open>2 ^ q\<close> and the partner of an index is again an index of the array.
\<close>

lemma ops_in_range:
  assumes "i < 2 ^ n" "q < n" "n \<le> 31"
  shows "xor32 (int i) (shl1 q) = int (i XOR 2 ^ q)" "and32 (int i) (shl1 q) = int (i AND 2 ^ q)"
proof -
  have "(2::nat) ^ n \<le> 2 ^ 31"
    using assms(3) by (simp only: power_increasing_iff one_less_numeral_iff semiring_norm)
  with assms(1) have "i < 2 ^ 31" by linarith
  then have "int i < 2 ^ 31" by (simp only: of_nat_less_numeral_power_cancel_iff)
  then have i: "toInt32 (int i) = int i" by (intro toInt32_id) simp_all
  have "q < 31" using assms by linarith
  then have "q mod 32 = q" by simp
  with \<open>q < 31\<close> have m: "shl1 q = 2 ^ q" by (simp add: shl1_cases)
  have mi: "toInt32 (shl1 q) = shl1 q" by (simp add: shl1_def toInt32_idem)
  show "xor32 (int i) (shl1 q) = int (i XOR 2 ^ q)"
    by (simp add: xor32_def i mi) (simp add: m of_nat_xor_eq)
  show "and32 (int i) (shl1 q) = int (i AND 2 ^ q)"
    by (simp add: and32_def i mi) (simp add: m of_nat_and_eq)
qed

lemma xor_pow2_nat:
  "(i::nat) XOR 2 ^ q = (if bit i q then i - 2 ^ q else i + 2 ^ q)" "bit i q \<Longrightarrow> 2 ^ q \<le> i"
proof -
  have e: "int (i XOR 2 ^ q) = (if bit i q then int i - 2 ^ q else int i + 2 ^ q)"
    using xor_pow2_int[of "int i" q] by (simp add: of_nat_xor_eq bit_of_nat_iff_bit)
  show le: "2 ^ q \<le> i" if "bit i q"
  proof -
    have "0 \<le> int (i XOR 2 ^ q)" by simp
    with e that have "(2::int) ^ q \<le> int i" by simp
    then show ?thesis by (metis of_nat_le_iff of_nat_numeral of_nat_power)
  qed
  show "i XOR 2 ^ q = (if bit i q then i - 2 ^ q else i + 2 ^ q)"
  proof (cases "bit i q")
    case True
    with e le have "int (i XOR 2 ^ q) = int (i - 2 ^ q)" by (simp add: of_nat_diff)
    with True show ?thesis by (simp only: of_nat_eq_iff if_True)
  next
    case False
    with e have "int (i XOR 2 ^ q) = int (i + 2 ^ q)" by simp
    with False show ?thesis by (simp only: of_nat_eq_iff if_False)
  qed
qed

lemma partner_in_range:
  assumes "i < 2 ^ n" "q < n"
  shows "(i::nat) XOR 2 ^ q < 2 ^ n"
proof -
  have "int i XOR 2 ^ q < 2 ^ n"
    using assms by (intro XOR_upper) simp_all
  then have "int (i XOR 2 ^ q) < int (2 ^ n)" by (simp add: of_nat_xor_eq)
  then show ?thesis by (simp only: of_nat_less_iff)
qed

lemma and_pow2_nat: "(i::nat) AND 2 ^ q \<noteq> 0 \<longleftrightarrow> bit i q"
  by (simp add: and_exp_eq_0_iff_not_bit)

lemma partner_bit: "bit ((i::nat) XOR 2 ^ q) q \<longleftrightarrow> \<not> bit i q"
  by (simp add: bit_xor_iff bit_exp_iff)

section \<open>The swap loops of X and CNOT\<close>

text \<open>
  On an array of \<open>2 ^ n\<close> amplitudes every swap is in range, so the loops return an
  array, of the same length, with the same amplitudes in another order.
\<close>

lemma swap_in_range:
  assumes "i < length newAmps" "t < length newAmps"
  shows "\<exists>newAmps'. swap newAmps i (int t) = Inr newAmps'
           \<and> length newAmps' = length newAmps \<and> mset newAmps' = mset newAmps"
proof -
  have "swap newAmps i (int t) = Inr (newAmps[i := newAmps ! t, t := newAmps ! i])"
    using assms by (simp add: swap_def elem_at_def)
  moreover have "mset (newAmps[i := newAmps ! t, t := newAmps ! i]) = mset newAmps"
    using assms by (simp add: mset_swap)
  ultimately show ?thesis by simp
qed

lemma X_loop_in_range:
  assumes "length newAmps = 2 ^ n" "q < n" "n \<le> 31" "\<forall>i\<in>set idxs. i < 2 ^ n"
  shows "\<exists>newAmps'. X_loop q idxs newAmps = Inr newAmps'
           \<and> length newAmps' = 2 ^ n \<and> mset newAmps' = mset newAmps"
  using assms(1,4)
proof (induction idxs arbitrary: newAmps)
  case Nil
  then show ?case by simp
next
  case (Cons i idxs)
  then have i: "i < 2 ^ n" by simp
  have t: "xor32 (int i) (shl1 q) = int (i XOR 2 ^ q)"
    by (rule ops_in_range(1)[OF i assms(2,3)])
  show ?case
  proof (cases "int i < int (i XOR 2 ^ q)")
    case False
    with Cons show ?thesis by (simp add: t)
  next
    case True
    have "i XOR 2 ^ q < length newAmps" "i < length newAmps"
      using partner_in_range[OF i assms(2)] i Cons.prems(1) by simp_all
    from swap_in_range[OF this(2,1)] obtain newAmps' where
      s: "swap newAmps i (int (i XOR 2 ^ q)) = Inr newAmps'"
        "length newAmps' = length newAmps" "mset newAmps' = mset newAmps" by blast
    from Cons.IH[of newAmps'] s Cons.prems obtain r where
      "X_loop q idxs newAmps' = Inr r" "length r = 2 ^ n" "mset r = mset newAmps'" by auto
    with s True show ?thesis by (simp add: t)
  qed
qed

lemma CNOT_loop_in_range:
  assumes "length newAmps = 2 ^ n" "q < n" "n \<le> 31" "\<forall>i\<in>set idxs. i < 2 ^ n"
  shows "\<exists>newAmps'. CNOT_loop controlMask (shl1 q) idxs newAmps = Inr newAmps'
           \<and> length newAmps' = 2 ^ n \<and> mset newAmps' = mset newAmps"
  using assms(1,4)
proof (induction idxs arbitrary: newAmps)
  case Nil
  then show ?case by simp
next
  case (Cons i idxs)
  then have i: "i < 2 ^ n" by simp
  have t: "xor32 (int i) (shl1 q) = int (i XOR 2 ^ q)"
    by (rule ops_in_range(1)[OF i assms(2,3)])
  show ?case
  proof (cases "and32 (int i) controlMask \<noteq> 0 \<and> int i < int (i XOR 2 ^ q)")
    case False
    with Cons show ?thesis by (auto simp add: t)
  next
    case True
    have "i XOR 2 ^ q < length newAmps" "i < length newAmps"
      using partner_in_range[OF i assms(2)] i Cons.prems(1) by simp_all
    from swap_in_range[OF this(2,1)] obtain newAmps' where
      s: "swap newAmps i (int (i XOR 2 ^ q)) = Inr newAmps'"
        "length newAmps' = length newAmps" "mset newAmps' = mset newAmps" by blast
    from Cons.IH[of newAmps'] s Cons.prems obtain r where
      "CNOT_loop controlMask (shl1 q) idxs newAmps' = Inr r" "length r = 2 ^ n"
      "mset r = mset newAmps'" by auto
    with s True show ?thesis by (simp add: t)
  qed
qed

section \<open>Total probability under permutation and update\<close>

lemma totalProbability_mset:
  "mset xs = mset ys \<Longrightarrow> totalProbability xs = totalProbability ys"
proof -
  assume "mset xs = mset ys"
  then have "mset (map (\<lambda>amp. (real_p amp)\<^sup>2 + (imag_p amp)\<^sup>2) xs)
               = mset (map (\<lambda>amp. (real_p amp)\<^sup>2 + (imag_p amp)\<^sup>2) ys)"
    by simp
  then have "sum_mset (mset (map (\<lambda>amp. (real_p amp)\<^sup>2 + (imag_p amp)\<^sup>2) xs))
               = sum_mset (mset (map (\<lambda>amp. (real_p amp)\<^sup>2 + (imag_p amp)\<^sup>2) ys))"
    by (rule arg_cong)
  then show ?thesis
    unfolding totalProbability_def by (simp only: sum_mset_sum_list)
qed

lemma sum_list_update_real:
  "k < length xs \<Longrightarrow> sum_list (xs[k := x]) = sum_list xs - xs ! k + (x::real)"
proof (induction xs arbitrary: k)
  case Nil
  then show ?case by simp
next
  case (Cons a xs)
  then show ?case by (cases k) simp_all
qed

lemma totalProbability_update:
  assumes "i < length xs"
  shows "totalProbability (xs[i := v])
           = totalProbability xs - ((real_p (xs ! i))\<^sup>2 + (imag_p (xs ! i))\<^sup>2)
               + ((real_p v)\<^sup>2 + (imag_p v)\<^sup>2)"
proof -
  define f where "f = (\<lambda>amp::Amp. (real_p amp)\<^sup>2 + (imag_p amp)\<^sup>2)"
  have "sum_list ((map f xs)[i := f v]) = sum_list (map f xs) - map f xs ! i + f v"
    by (rule sum_list_update_real) (simp add: assms)
  then have "sum_list (map f (xs[i := v])) = sum_list (map f xs) - f (xs ! i) + f v"
    using assms by (simp add: map_update)
  then show ?thesis by (simp add: totalProbability_def f_def)
qed

section \<open>The invariant of the H loop\<close>

lemma written_before_self: "written_before q k k \<longleftrightarrow> bit k q"
proof -
  have "(0::nat) < 2 ^ q" by simp
  moreover have "bit k q \<Longrightarrow> 2 ^ q \<le> k" by (rule xor_pow2_nat(2))
  ultimately have "bit k q \<Longrightarrow> k - 2 ^ q < k" by linarith
  then show ?thesis by (auto simp add: written_before_def)
qed

lemma bit_add_pow2:
  assumes "\<not> bit (k::nat) q"
  shows "bit (k + 2 ^ q) q"
  using partner_bit[of k q] assms by (simp add: xor_pow2_nat(1))

lemma bit_sub_pow2:
  assumes "bit (y::nat) q"
  shows "\<not> bit (y - 2 ^ q) q"
  using partner_bit[of y q] assms by (simp add: xor_pow2_nat(1))

lemma written_before_skip:
  assumes "bit k q"
  shows "written_before q (Suc k) y \<longleftrightarrow> written_before q k y"
proof
  assume "written_before q (Suc k) y"
  then consider "y < k" | "y = k" | "bit y q" "y - 2 ^ q < k" | "bit y q" "y - 2 ^ q = k"
    unfolding written_before_def by linarith
  then show "written_before q k y"
  proof cases
    case 2
    with assms show ?thesis by (simp add: written_before_self)
  next
    case 4
    with bit_sub_pow2[of y q] assms show ?thesis by simp
  qed (simp_all add: written_before_def)
qed (auto simp add: written_before_def)

lemma written_before_step:
  assumes "\<not> bit k q"
  shows "written_before q (Suc k) y \<longleftrightarrow> written_before q k y \<or> y = k \<or> y = k + 2 ^ q"
proof
  assume "written_before q (Suc k) y"
  then consider "y < k" | "y = k" | "bit y q" "y - 2 ^ q < k" | "bit y q" "y - 2 ^ q = k"
    unfolding written_before_def by linarith
  then show "written_before q k y \<or> y = k \<or> y = k + 2 ^ q"
  proof cases
    case 4
    with xor_pow2_nat(2)[of y q] have "y = k + 2 ^ q" by simp
    then show ?thesis by simp
  qed (simp_all add: written_before_def)
next
  assume "written_before q k y \<or> y = k \<or> y = k + 2 ^ q"
  with bit_add_pow2[OF assms] show "written_before q (Suc k) y"
    by (auto simp add: written_before_def)
qed

lemma written_before_partner:
  assumes "\<not> bit k q"
  shows "\<not> written_before q k (k + 2 ^ q)"
  by (simp add: written_before_def)

lemma hadamard_pair_norm:
  "((a + b) * invSqrt2)\<^sup>2 + ((c + d) * invSqrt2)\<^sup>2
     + (((a - b) * invSqrt2)\<^sup>2 + ((c - d) * invSqrt2)\<^sup>2)
   = (a\<^sup>2 + c\<^sup>2) + (b\<^sup>2 + d\<^sup>2)"
proof -
  have s: "invSqrt2\<^sup>2 = 1 / 2" by (simp add: invSqrt2_def power_divide)
  have "((a + b) * invSqrt2)\<^sup>2 + ((c + d) * invSqrt2)\<^sup>2
          + (((a - b) * invSqrt2)\<^sup>2 + ((c - d) * invSqrt2)\<^sup>2)
        = (2 * a\<^sup>2 + 2 * b\<^sup>2 + 2 * c\<^sup>2 + 2 * d\<^sup>2) * invSqrt2\<^sup>2"
    by (simp add: power_mult_distrib power2_sum power2_diff algebra_simps)
  also have "\<dots> = (a\<^sup>2 + c\<^sup>2) + (b\<^sup>2 + d\<^sup>2)" by (simp add: s)
  finally show ?thesis .
qed

lemma spec_hadamard_low:
  assumes "\<not> bit k q"
  shows "spec_hadamard amplitudes q k
    = \<lparr>real_p = (real_p (amplitudes ! k) + real_p (amplitudes ! (k + 2 ^ q))) * invSqrt2,
       imag_p = (imag_p (amplitudes ! k) + imag_p (amplitudes ! (k + 2 ^ q))) * invSqrt2\<rparr>"
  using assms by (simp add: spec_hadamard_def invSqrt2_def Let_def)

lemma spec_hadamard_high:
  assumes "\<not> bit k q"
  shows "spec_hadamard amplitudes q (k + 2 ^ q)
    = \<lparr>real_p = (real_p (amplitudes ! k) - real_p (amplitudes ! (k + 2 ^ q))) * invSqrt2,
       imag_p = (imag_p (amplitudes ! k) - imag_p (amplitudes ! (k + 2 ^ q))) * invSqrt2\<rparr>"
  using bit_add_pow2[OF assms] by (simp add: spec_hadamard_def invSqrt2_def Let_def)

lemma H_loop_invariant:
  assumes len: "length amplitudes = 2 ^ n" and q: "q < n" and n: "n \<le> 31"
    and k: "k \<le> 2 ^ n"
    and na_len: "length newAmps = 2 ^ n"
    and pr: "\<forall>x. x \<in> processed \<longleftrightarrow> (\<exists>y. x = int y \<and> y < 2 ^ n \<and> written_before q k y)"
    and na: "\<forall>x<2 ^ n. newAmps ! x
               = (if written_before q k x then spec_hadamard amplitudes q x else amplitudes ! x)"
    and tot: "totalProbability newAmps = totalProbability amplitudes"
  shows "\<exists>newAmps' processed'.
      H_loop amplitudes (shl1 q) [k..<2 ^ n] (newAmps, processed) = Inr (newAmps', processed')
      \<and> length newAmps' = 2 ^ n
      \<and> (\<forall>x<2 ^ n. newAmps' ! x = spec_hadamard amplitudes q x)
      \<and> totalProbability newAmps' = totalProbability amplitudes
      \<and> H_visited (shl1 q) [k..<2 ^ n] processed = filter (\<lambda>i. \<not> bit i q) [k..<2 ^ n]"
  using k na_len pr na tot
proof (induction "2 ^ n - k" arbitrary: k newAmps processed)
  case 0
  then have "k = 2 ^ n" by simp
  with 0 show ?case by (simp add: written_before_def)
next
  case (Suc d)
  then have klt: "k < 2 ^ n" and d: "d = 2 ^ n - Suc k" and sk: "Suc k \<le> 2 ^ n" by linarith+
  have upt: "[k..<2 ^ n] = k # [Suc k..<2 ^ n]" using klt by (rule upt_conv_Cons)
  have mem: "int k \<in> processed \<longleftrightarrow> bit k q"
    using Suc.prems(3) klt by (simp add: written_before_self)
  show ?case
  proof (cases "bit k q")
    case True
    have pr': "\<forall>x. x \<in> processed \<longleftrightarrow> (\<exists>y. x = int y \<and> y < 2 ^ n \<and> written_before q (Suc k) y)"
      using Suc.prems(3) by (simp add: written_before_skip[OF True])
    have na': "\<forall>x<2 ^ n. newAmps ! x
               = (if written_before q (Suc k) x then spec_hadamard amplitudes q x else amplitudes ! x)"
      using Suc.prems(4) by (simp add: written_before_skip[OF True])
    from Suc.hyps(1)[OF d sk Suc.prems(2) pr' na' Suc.prems(5)] True mem
    show ?thesis by (simp add: upt)
  next
    case False
    let ?h = "k + 2 ^ q"
    have part: "k XOR 2 ^ q = ?h" using False by (simp add: xor_pow2_nat(1))
    have hlt: "?h < 2 ^ n" using partner_in_range[OF klt q] by (simp add: part)
    have j: "xor32 (int k) (shl1 q) = int ?h"
      using ops_in_range(1)[OF klt q n] by (simp only: part)
    have a: "and32 (int k) (shl1 q) = 0"
      using ops_in_range(2)[OF klt q n] and_pow2_nat[of k q] False by simp
    have rk: "elem_at amplitudes (int k) = Inr (amplitudes ! k)"
      using klt len by (simp add: elem_at_def)
    have rh: "elem_at amplitudes (int ?h) = Inr (amplitudes ! ?h)"
      using hlt len by (simp add: elem_at_def del: of_nat_add of_nat_power)
    define A where "A = spec_hadamard amplitudes q k"
    define B where "B = spec_hadamard amplitudes q ?h"
    define newAmps2 where "newAmps2 = newAmps[k := A, ?h := B]"
    define processed2 where "processed2 = insert (int ?h) (insert (int k) processed)"
    have step: "H_loop amplitudes (shl1 q) [k..<2 ^ n] (newAmps, processed)
                  = H_loop amplitudes (shl1 q) [Suc k..<2 ^ n] (newAmps2, processed2)"
      using mem False
      by (simp add: upt j a rk rh Let_def newAmps2_def processed2_def A_def B_def
            spec_hadamard_low[OF False] spec_hadamard_high[OF False]
          del: of_nat_add of_nat_power)
    have vstep: "H_visited (shl1 q) [k..<2 ^ n] processed
                  = k # H_visited (shl1 q) [Suc k..<2 ^ n] processed2"
      using mem False
      by (simp add: upt j a Let_def processed2_def del: of_nat_add of_nat_power)
    have len2: "length newAmps2 = 2 ^ n" using Suc.prems(2) by (simp add: newAmps2_def)
    have pr2: "\<forall>x. x \<in> processed2 \<longleftrightarrow> (\<exists>y. x = int y \<and> y < 2 ^ n \<and> written_before q (Suc k) y)"
    proof (intro allI iffI)
      fix x assume "x \<in> processed2"
      then consider "x = int ?h" | "x = int k" | "x \<in> processed" unfolding processed2_def by blast
      then show "\<exists>y. x = int y \<and> y < 2 ^ n \<and> written_before q (Suc k) y"
      proof cases
        case 1
        with hlt show ?thesis by (intro exI[of _ ?h]) (simp add: written_before_step[OF False])
      next
        case 2
        with klt show ?thesis by (intro exI[of _ k]) (simp add: written_before_step[OF False])
      next
        case 3
        with Suc.prems(3) obtain y where "x = int y" "y < 2 ^ n" "written_before q k y" by blast
        then show ?thesis by (intro exI[of _ y]) (simp add: written_before_step[OF False])
      qed
    next
      fix x assume "\<exists>y. x = int y \<and> y < 2 ^ n \<and> written_before q (Suc k) y"
      then obtain y where y: "x = int y" "y < 2 ^ n" "written_before q (Suc k) y" by blast
      then consider "written_before q k y" | "y = k" | "y = ?h"
        using written_before_step[OF False] by blast
      then show "x \<in> processed2"
      proof cases
        case 1
        with y Suc.prems(3) have "x \<in> processed" by blast
        then show ?thesis by (simp add: processed2_def)
      qed (simp_all add: processed2_def y(1))
    qed
    have nk: "\<not> written_before q k k" using False by (simp add: written_before_self)
    have nh: "\<not> written_before q k ?h" by (rule written_before_partner[OF False])
    have na2: "\<forall>x<2 ^ n. newAmps2 ! x
               = (if written_before q (Suc k) x then spec_hadamard amplitudes q x else amplitudes ! x)"
    proof (intro allI impI)
      fix x :: nat assume x: "x < 2 ^ n"
      consider "x = ?h" | "x = k" | "x \<noteq> ?h" "x \<noteq> k" by blast
      then show "newAmps2 ! x
               = (if written_before q (Suc k) x then spec_hadamard amplitudes q x else amplitudes ! x)"
      proof cases
        case 1
        with hlt Suc.prems(2) show ?thesis
          by (simp add: newAmps2_def B_def written_before_step[OF False])
      next
        case 2
        with klt Suc.prems(2) show ?thesis
          by (simp add: newAmps2_def A_def written_before_step[OF False])
      next
        case 3
        with Suc.prems(4) x show ?thesis
          by (simp add: newAmps2_def written_before_step[OF False])
      qed
    qed
    have ok: "newAmps ! k = amplitudes ! k" using Suc.prems(4) klt nk by simp
    have oh: "newAmps ! ?h = amplitudes ! ?h" using Suc.prems(4) hlt nh by simp
    have "totalProbability newAmps2
            = totalProbability (newAmps[k := A])
                - ((real_p ((newAmps[k := A]) ! ?h))\<^sup>2 + (imag_p ((newAmps[k := A]) ! ?h))\<^sup>2)
                + ((real_p B)\<^sup>2 + (imag_p B)\<^sup>2)"
      unfolding newAmps2_def using hlt Suc.prems(2) by (intro totalProbability_update) simp
    also have "(newAmps[k := A]) ! ?h = amplitudes ! ?h" using oh by simp
    also have "totalProbability (newAmps[k := A])
            = totalProbability newAmps - ((real_p (newAmps ! k))\<^sup>2 + (imag_p (newAmps ! k))\<^sup>2)
                + ((real_p A)\<^sup>2 + (imag_p A)\<^sup>2)"
      using klt Suc.prems(2) by (intro totalProbability_update) simp
    finally have tot2: "totalProbability newAmps2 = totalProbability amplitudes"
      using hadamard_pair_norm[of "real_p (amplitudes ! k)" "real_p (amplitudes ! ?h)"
              "imag_p (amplitudes ! k)" "imag_p (amplitudes ! ?h)"]
      by (simp add: ok Suc.prems(5) A_def B_def spec_hadamard_low[OF False]
            spec_hadamard_high[OF False])
    from Suc.hyps(1)[OF d sk len2 pr2 na2 tot2] False
    show ?thesis by (simp add: step vstep upt[symmetric]) (simp add: upt)
  qed
qed

section \<open>Gates on a state vector\<close>

lemma H_gate_result:
  assumes "length amplitudes = 2 ^ n" "q < n" "n \<le> 31"
  shows "\<exists>newAmps. applyGate amplitudes
            \<lparr>gate_id = g, gate_type = H, qubit = q, control = c, time = t\<rparr> = Inr newAmps
      \<and> length newAmps = 2 ^ n
      \<and> (\<forall>x<2 ^ n. newAmps ! x = spec_hadamard amplitudes q x)
      \<and> totalProbability newAmps = totalProbability amplitudes"
proof -
  have "\<exists>newAmps' processed'.
      H_loop amplitudes (shl1 q) [0..<2 ^ n] (amplitudes, {}) = Inr (newAmps', processed')
      \<and> length newAmps' = 2 ^ n
      \<and> (\<forall>x<2 ^ n. newAmps' ! x = spec_hadamard amplitudes q x)
      \<and> totalProbability newAmps' = totalProbability amplitudes
      \<and> H_visited (shl1 q) [0..<2 ^ n] {} = filter (\<lambda>i. \<not> bit i q) [0..<2 ^ n]"
    using assms by (intro H_loop_invariant) (simp_all add: written_before_def)
  then show ?thesis using assms(1) by (auto simp add: applyGate_def)
qed

lemma H_visited_result:
  assumes "q < n" "n \<le> 31"
  shows "H_visited (shl1 q) [0..<2 ^ n] {} = filter (\<lambda>i. \<not> bit i q) [0..<2 ^ n]"
proof -
  have "\<exists>newAmps' processed'.
      H_loop (replicate (2 ^ n) \<lparr>real_p = 0, imag_p = 0\<rparr>) (shl1 q) [0..<2 ^ n]
        (replicate (2 ^ n) \<lparr>real_p = 0, imag_p = 0\<rparr>, {}) = Inr (newAmps', processed')
      \<and> length newAmps' = 2 ^ n
      \<and> (\<forall>x<2 ^ n. newAmps' ! x = spec_hadamard (replicate (2 ^ n) \<lparr>real_p = 0, imag_p = 0\<rparr>) q x)
      \<and> totalProbability newAmps' = totalProbability (replicate (2 ^ n) \<lparr>real_p = 0, imag_p = 0\<rparr>)
      \<and> H_visited (shl1 q) [0..<2 ^ n] {} = filter (\<lambda>i. \<not> bit i q) [0..<2 ^ n]"
    using assms by (intro H_loop_invariant) (simp_all add: written_before_def)
  then show ?thesis by blast
qed

lemma count_list_filter_upt:
  "count_list (filter P [0..<N]) i = (if i < N \<and> P i then 1 else 0)"
  by (induction N) simp_all

lemma applyGate_preserves:
  assumes "length amplitudes = 2 ^ n" "n \<le> 31" "qubit gate < n"
  shows "\<exists>newAmps. applyGate amplitudes gate = Inr newAmps \<and> length newAmps = 2 ^ n
           \<and> totalProbability newAmps = totalProbability amplitudes"
proof -
  have all: "\<forall>i\<in>set [0..<length amplitudes]. i < 2 ^ n" using assms(1) by simp
  consider "gate_type gate = X" | "gate_type gate = H"
    | "gate_type gate = CNOT" "control gate \<noteq> None"
    | "gate_type gate \<noteq> X" "gate_type gate \<noteq> H" "\<not> (gate_type gate = CNOT \<and> control gate \<noteq> None)"
    by blast
  then show ?thesis
  proof cases
    case 1
    from X_loop_in_range[OF assms(1) assms(3) assms(2) all] 1 show ?thesis
      by (auto simp add: applyGate_def dest: totalProbability_mset)
  next
    case 2
    have "gate = \<lparr>gate_id = gate_id gate, gate_type = H, qubit = qubit gate,
                    control = control gate, time = time gate\<rparr>"
      using 2 by simp
    with H_gate_result[OF assms(1) assms(3) assms(2), of "gate_id gate" "control gate" "time gate"]
    show ?thesis by auto
  next
    case 3
    from CNOT_loop_in_range[OF assms(1) assms(3) assms(2) all, of "shl1 (the (control gate))"] 3
    show ?thesis
      by (auto simp add: applyGate_def dest: totalProbability_mset)
  next
    case 4
    with assms(1) show ?thesis by (auto simp add: applyGate_def)
  qed
qed

lemma applyGates_preserves:
  assumes "length amplitudes = 2 ^ n" "n \<le> 31" "\<forall>g\<in>set gates. qubit g < n"
  shows "\<exists>newAmps. applyGates amplitudes gates = Inr newAmps \<and> length newAmps = 2 ^ n
           \<and> totalProbability newAmps = totalProbability amplitudes"
  using assms(1,3)
proof (induction gates arbitrary: amplitudes)
  case Nil
  then show ?case by simp
next
  case (Cons gate gates)
  then have "qubit gate < n" by simp
  from applyGate_preserves[OF Cons.prems(1) assms(2) this] obtain a where
    a: "applyGate amplitudes gate = Inr a" "length a = 2 ^ n"
       "totalProbability a = totalProbability amplitudes" by blast
  from Cons.IH[OF a(2)] Cons.prems(2) obtain b where
    "applyGates a gates = Inr b" "length b = 2 ^ n" "totalProbability b = totalProbability a"
    by auto
  with a show ?case by simp
qed

lemma totalProbability_initial: "totalProbability (initialAmplitudes n) = 1"
proof -
  have z: "totalProbability (replicate m \<lparr>real_p = 0, imag_p = 0\<rparr>) = 0" for m
    by (induction m) (simp_all add: totalProbability_def)
  have "totalProbability ((replicate (2 ^ n) \<lparr>real_p = 0, imag_p = 0\<rparr>)[0 := \<lparr>real_p = 1, imag_p = 0\<rparr>])
          = totalProbability (replicate (2 ^ n) \<lparr>real_p = 0, imag_p = 0\<rparr>)
              - ((real_p (replicate (2 ^ n) \<lparr>real_p = 0, imag_p = 0\<rparr> ! 0))\<^sup>2
                  + (imag_p (replicate (2 ^ n) \<lparr>real_p = 0, imag_p = 0\<rparr> ! 0))\<^sup>2)
              + ((real_p \<lparr>real_p = 1, imag_p = 0\<rparr>)\<^sup>2 + (imag_p \<lparr>real_p = 1, imag_p = 0\<rparr>)\<^sup>2)"
    by (intro totalProbability_update) simp
  then show ?thesis by (simp add: initialAmplitudes_def z)
qed

lemma idealProbs_sum:
  assumes "n \<le> 31" "\<forall>g\<in>set gates. qubit g < n"
  shows "\<exists>probs. idealProbs n gates = Inr probs \<and> length probs = 2 ^ n \<and> sum_list probs = 1"
proof -
  have "length (initialAmplitudes n) = 2 ^ n" by (simp add: initialAmplitudes_def)
  moreover have "\<forall>g\<in>set (sort_key time gates). qubit g < n" using assms(2) by simp
  ultimately obtain a where
    "applyGates (initialAmplitudes n) (sort_key time gates) = Inr a" "length a = 2 ^ n"
    "totalProbability a = totalProbability (initialAmplitudes n)"
    using applyGates_preserves[OF _ assms(1)] by blast
  then show ?thesis
    by (simp add: idealProbs_def totalProbability_initial totalProbability_def[symmetric])
qed

section \<open>Gates that reach no branch\<close>

text \<open>
  C6. A ControlledNot gate whose control qubit is absent returns the amplitudes as they
  are, for every amplitude array and every target qubit: no fault, no change.
\<close>

theorem cnot_without_control_noop:
  "applyGate amplitudes \<lparr>gate_id = g, gate_type = CNOT, qubit = q, control = None, time = t\<rparr>
     = Inr amplitudes"
  by (simp add: applyGate_def)

text \<open>
  C4, as the code has it. The evolver has branches for X, H and CNOT only, so a PauliZ
  gate changes no amplitude, and neither does an Identity gate; both hold for every
  amplitude array and every target qubit.
\<close>

theorem pauliZ_and_identity_noop:
  "applyGate amplitudes \<lparr>gate_id = g, gate_type = Z, qubit = q, control = c, time = t\<rparr>
     = Inr amplitudes
   \<and> applyGate amplitudes \<lparr>gate_id = g, gate_type = I, qubit = q, control = c, time = t\<rparr>
     = Inr amplitudes"
  by (simp add: applyGate_def)

text \<open>
  C4, as the claim states it, fails: on one qubit, index 1 has bit 0 set, and a PauliZ
  gate on qubit 0 does not turn the amplitude 1 at index 1 into -1.
\<close>

theorem pauliZ_negates_counterexample:
  "applyGate [\<lparr>real_p = 0, imag_p = 0\<rparr>, \<lparr>real_p = 1, imag_p = 0\<rparr>]
     \<lparr>gate_id = ''z'', gate_type = Z, qubit = 0, control = None, time = 0\<rparr>
   \<noteq> Inr [\<lparr>real_p = 0, imag_p = 0\<rparr>, \<lparr>real_p = - 1, imag_p = - 0\<rparr>]"
  by (simp add: applyGate_def)

section \<open>ControlledNot with control and target on the same qubit\<close>

lemma CNOT_loop_same_qubit: "CNOT_loop (shl1 q) (shl1 q) idxs newAmps = Inr newAmps"
  by (induction idxs) (simp_all add: same_bit_no_swap Let_def)

text \<open>
  C10. A ControlledNot gate whose control qubit is its target qubit returns the
  amplitudes as they are, for every amplitude array: wherever the control bit is set,
  the partner index is the smaller one and the guard of the swap is false.
\<close>

theorem cnot_same_qubit_noop:
  "applyGate amplitudes \<lparr>gate_id = g, gate_type = CNOT, qubit = q, control = Some q, time = t\<rparr>
     = Inr amplitudes"
  by (simp add: applyGate_def CNOT_loop_same_qubit)

section \<open>The cumulative error\<close>

lemma totalError_bounds:
  assumes "0 \<le> p" "p \<le> 1"
  shows "0 \<le> totalError p g" "totalError p g \<le> 1"
proof -
  have "0 \<le> (1 - p) ^ max 1 g" using assms by simp
  moreover have "(1 - p) ^ max 1 g \<le> 1" using assms by (simp add: power_le_one)
  ultimately show "0 \<le> totalError p g" "totalError p g \<le> 1"
    by (simp_all add: totalError_def)
qed

text \<open>
  C7. For a probability \<open>p\<close> between 0 and 1 and every gate count \<open>g\<close>, the cumulative
  error is \<open>1 - (1 - p) ^ max 1 g\<close>; for the empty circuit the exponent is 1; the error
  lies between 0 and 1; and it is the error the engine blends with, shown on the
  depolarizing branch.
\<close>

theorem cumulative_error_formula:
  assumes "0 \<le> p" "p \<le> 1"
  shows "totalError p g = 1 - (1 - p) ^ max 1 g
    \<and> totalError p 0 = 1 - (1 - p) ^ 1
    \<and> 0 \<le> totalError p g \<and> totalError p g \<le> 1
    \<and> perturb ideal \<lparr>noise_type = DEPOLARIZING, probability = p\<rparr> g
        = Inr (map (\<lambda>val. val * (1 - (1 - (1 - p) ^ max 1 g))
                          + 1 / real (length ideal) * (1 - (1 - p) ^ max 1 g)) ideal)"
  using totalError_bounds[OF assms, of g]
  by (simp add: totalError_def perturb_def)

theorem cumulative_error_formula_witness:
  "(0::real) \<le> 1 / 2 \<and> (1 / 2 :: real) \<le> 1
   \<and> totalError (1 / 2) 0 = 1 / 2 \<and> totalError (1 / 2) 2 = 3 / 4
   \<and> perturb [1, 0] \<lparr>noise_type = DEPOLARIZING, probability = 1 / 2\<rparr> 0 = Inr [3 / 4, 1 / 4]"
  using cumulative_error_formula[of "1 / 2" 0 "[1, 0]"]
        cumulative_error_formula[of "1 / 2" 2 "[1, 0]"]
  by (simp add: power2_eq_square)

section \<open>The BIT_FLIP branch updates in place\<close>

text \<open>
  C1 at the distribution \<open>[1, 0]\<close> of one qubit, with probability 1/2 and one gate, so
  that \<open>flipAmount\<close> is 1/5. Entry 0 becomes \<open>1 * 4/5 + 0 * 1/5 = 4/5\<close>. Entry 1 is then
  computed from the new entry 0 and becomes \<open>0 * 4/5 + 4/5 * 1/5 = 4/25\<close>, where the
  formula over the ideal vector gives \<open>0 * 4/5 + 1 * 1/5 = 1/5\<close>.
\<close>

theorem bit_flip_reads_perturbed_entry:
  "perturb [1, 0] \<lparr>noise_type = BIT_FLIP, probability = 1 / 2\<rparr> 1 = Inr [4 / 5, 4 / 25]
   \<and> totalError (1 / 2) 1 * 0.4 = 1 / 5
   \<and> [1, 0::real] ! 1 * (1 - 1 / 5) + [1, 0] ! (2 - 1 - 1) * (1 / 5) = 1 / 5"
  by (simp add: perturb_def totalError_def upt_rec)

section \<open>Renormalisation\<close>

lemma foldl_plus_sum_list: "foldl (\<lambda>a b. a + b) (z::real) xs = z + sum_list xs"
  by (induction xs arbitrary: z) simp_all

lemma renormalize_eq:
  "renormalize result = map (\<lambda>v. v / (if sum_list result = 0 then 1 else sum_list result)) result"
  by (simp add: renormalize_def foldl_plus_sum_list)

lemma sum_list_divide: "sum_list (map (\<lambda>v. v / c) xs) = sum_list xs / (c::real)"
  by (induction xs) (simp_all add: add_divide_distrib)

lemma perturb_total:
  assumes "ideal \<noteq> []"
  shows "\<exists>result. perturb ideal noise g = Inr result"
  using assms by (cases ideal) (simp_all add: perturb_def elem_at_def Let_def)

text \<open>
  C8. For every non-empty ideal vector, noise configuration and gate count the engine
  returns a vector. Where the sum of the perturbed vector is not zero, the returned
  vector is the perturbed one divided entrywise by that sum, and its entries sum to 1;
  where the sum is zero, the perturbed vector is returned as it is.
\<close>

theorem noisy_vector_renormalized:
  assumes "ideal \<noteq> []"
  shows "\<exists>result. perturb ideal noise g = Inr result
    \<and> (sum_list result \<noteq> 0 \<longrightarrow>
          applyNoiseModel ideal noise g = Inr (map (\<lambda>v. v / sum_list result) result)
          \<and> sum_list (map (\<lambda>v. v / sum_list result) result) = 1)
    \<and> (sum_list result = 0 \<longrightarrow> applyNoiseModel ideal noise g = Inr result)"
proof -
  from perturb_total[OF assms] obtain result where r: "perturb ideal noise g = Inr result" ..
  have "sum_list result \<noteq> 0 \<Longrightarrow> sum_list (map (\<lambda>v. v / sum_list result) result) = 1"
    by (simp add: sum_list_divide)
  then show ?thesis using r by (auto simp add: applyNoiseModel_def renormalize_eq)
qed

theorem noisy_vector_renormalized_witness:
  "[1, 0::real] \<noteq> [] \<and> [0, 0::real] \<noteq> []
   \<and> applyNoiseModel [1, 0] \<lparr>noise_type = BIT_FLIP, probability = 1 / 2\<rparr> 1 = Inr [5 / 6, 1 / 6]
   \<and> applyNoiseModel [0, 0] \<lparr>noise_type = BIT_FLIP, probability = 1 / 2\<rparr> 1 = Inr [0, 0]"
  using noisy_vector_renormalized[of "[1, 0]" "\<lparr>noise_type = BIT_FLIP, probability = 1 / 2\<rparr>" 1]
        noisy_vector_renormalized[of "[0, 0]" "\<lparr>noise_type = BIT_FLIP, probability = 1 / 2\<rparr>" 1]
  by (simp add: perturb_def totalError_def upt_rec)

section \<open>Fidelity\<close>

lemma overlap_loop_sum:
  assumes "\<forall>i\<in>set idxs. i < length ideal \<and> i < length noisy \<and> 0 \<le> ideal ! i * noisy ! i"
  shows "overlap_loop ideal noisy idxs overlap
           = Inr (overlap + sum_list (map (\<lambda>i. sqrt (ideal ! i * noisy ! i)) idxs))"
  using assms
proof (induction idxs arbitrary: overlap)
  case Nil
  then show ?case by simp
next
  case (Cons i idxs)
  then show ?case by (simp add: elem_at_def not_less[symmetric])
qed

lemma calculateFidelity_sum:
  assumes "\<forall>x\<in>set ideal. 0 \<le> x" "\<forall>x\<in>set noisy. 0 \<le> x" "length noisy = length ideal"
  shows "calculateFidelity ideal noisy
           = Inr (min 1 ((\<Sum>i\<leftarrow>[0..<length ideal]. sqrt (ideal ! i * noisy ! i))\<^sup>2))"
proof -
  have "\<forall>i\<in>set [0..<length ideal].
          i < length ideal \<and> i < length noisy \<and> 0 \<le> ideal ! i * noisy ! i"
    using assms by (simp add: mult_nonneg_nonneg)
  from overlap_loop_sum[OF this, of 0] show ?thesis
    by (simp add: calculateFidelity_def power2_eq_square)
qed

lemma BIT_FLIP_loop_zero: "BIT_FLIP_loop 0 states idxs result = result"
  by (induction idxs arbitrary: result) simp_all

lemma AMPLITUDE_DAMPING_loop_zero: "AMPLITUDE_DAMPING_loop 0 idxs result = result"
  by (induction idxs arbitrary: result) simp_all

lemma perturb_no_error:
  assumes "ideal \<noteq> []" "totalError (probability noise) g = 0"
  shows "perturb ideal noise g = Inr ideal"
  using assms
  by (cases ideal)
     (simp_all add: perturb_def elem_at_def Let_def BIT_FLIP_loop_zero
        AMPLITUDE_DAMPING_loop_zero)

lemma sum_sqrt_self:
  assumes "\<forall>x\<in>set xs. 0 \<le> (x::real)"
  shows "(\<Sum>i\<leftarrow>[0..<length xs]. sqrt (xs ! i * xs ! i)) = sum_list xs"
proof -
  have "(\<Sum>i\<leftarrow>[0..<length xs]. sqrt (xs ! i * xs ! i)) = (\<Sum>i\<leftarrow>[0..<length xs]. xs ! i)"
    using assms by (intro arg_cong[where f=sum_list] map_cong) simp_all
  also have "\<dots> = sum_list xs" by (simp add: map_nth)
  finally show ?thesis .
qed

text \<open>
  C2, as the code has it. For vectors of equal length with non-negative entries the
  fidelity is returned and lies between 0 and 1. If moreover the ideal vector sums to 1
  and the cumulative error is 0, the noisy vector is the ideal one and the fidelity
  is 1. The converse is not claimed.
\<close>

theorem fidelity_range_and_no_error:
  assumes "\<forall>x\<in>set ideal. 0 \<le> x" "\<forall>x\<in>set noisy. 0 \<le> x" "length noisy = length ideal"
  shows "(\<exists>f. calculateFidelity ideal noisy = Inr f \<and> 0 \<le> f \<and> f \<le> 1)
    \<and> (sum_list ideal = 1 \<and> totalError (probability noise) g = 0 \<longrightarrow>
         applyNoiseModel ideal noise g = Inr ideal \<and> calculateFidelity ideal ideal = Inr 1)"
proof (intro conjI impI)
  show "\<exists>f. calculateFidelity ideal noisy = Inr f \<and> 0 \<le> f \<and> f \<le> 1"
    by (simp add: calculateFidelity_sum[OF assms])
next
  assume h: "sum_list ideal = 1 \<and> totalError (probability noise) g = 0"
  then have "ideal \<noteq> []" by auto
  with h have "perturb ideal noise g = Inr ideal" by (simp add: perturb_no_error)
  with h show "applyNoiseModel ideal noise g = Inr ideal"
    by (simp add: applyNoiseModel_def renormalize_eq)
next
  assume h: "sum_list ideal = 1 \<and> totalError (probability noise) g = 0"
  have "calculateFidelity ideal ideal
          = Inr (min 1 ((\<Sum>i\<leftarrow>[0..<length ideal]. sqrt (ideal ! i * ideal ! i))\<^sup>2))"
    using assms(1) by (intro calculateFidelity_sum) simp_all
  also have "(\<Sum>i\<leftarrow>[0..<length ideal]. sqrt (ideal ! i * ideal ! i)) = sum_list ideal"
    by (rule sum_sqrt_self[OF assms(1)])
  finally show "calculateFidelity ideal ideal = Inr 1"
    using h by simp
qed

theorem fidelity_range_and_no_error_witness:
  "(0::real) \<le> 1 \<and> (0::real) \<le> 0 \<and> (0::real) \<le> 1 / 4 \<and> (0::real) \<le> 3 / 4
   \<and> length [1 / 4, 3 / 4 :: real] = length [1, 0::real]
   \<and> sum_list [1, 0::real] = 1 \<and> totalError 0 3 = 0
   \<and> (\<exists>f. calculateFidelity [1, 0] [1 / 4, 3 / 4] = Inr f \<and> 0 \<le> f \<and> f \<le> 1)
   \<and> applyNoiseModel [1, 0] \<lparr>noise_type = BIT_FLIP, probability = 0\<rparr> 3 = Inr [1, 0]
   \<and> calculateFidelity [1, 0] [1, 0] = Inr 1"
  using fidelity_range_and_no_error
          [of "[1, 0]" "[1 / 4, 3 / 4]" "\<lparr>noise_type = BIT_FLIP, probability = 0\<rparr>" 3]
  by (simp add: totalError_def)

text \<open>
  C2, as the claim states it, fails. The empty circuit on one qubit has the ideal
  distribution \<open>[1, 0]\<close> and gate count 0, so with probability 1/2 the cumulative error
  is 1/2. Amplitude damping moves weight towards index 0, where all of it is already:
  the noisy distribution is the ideal one and the fidelity is 1.
\<close>

lemma idealProbs_empty_circuit: "idealProbs 1 [] = Inr [1, 0]"
  by (simp add: idealProbs_def initialAmplitudes_def numeral_2_eq_2)

lemma amplitude_damping_ground_state:
  "applyNoiseModel [1, 0] \<lparr>noise_type = AMPLITUDE_DAMPING, probability = 1 / 2\<rparr> 0 = Inr [1, 0]"
  by (simp add: applyNoiseModel_def perturb_def renormalize_def totalError_def elem_at_def upt_rec)

lemma calculateFidelity_ground_state: "calculateFidelity [1, 0] [1, 0] = Inr 1"
  by (simp add: calculateFidelity_def elem_at_def upt_rec)

lemma toDict_ground_state: "toDict 1 [1, 0] = [''0'' \<mapsto> 1, ''1'' \<mapsto> 0]"
  by (simp add: toDict_def padStart_def upt_rec)

theorem fidelity_one_with_error_counterexample:
  "simulate 1 [] \<lparr>noise_type = AMPLITUDE_DAMPING, probability = 1 / 2\<rparr>
     = Inr \<lparr>probabilities = [''0'' \<mapsto> 1, ''1'' \<mapsto> 0],
            noisyProbabilities = [''0'' \<mapsto> 1, ''1'' \<mapsto> 0],
            fidelity = 1, qubitCount = 1\<rparr>
   \<and> 0 < totalError (1 / 2) (length ([] :: Gate list))"
  unfolding simulate_def idealProbs_empty_circuit sum.case list.size
    amplitude_damping_ground_state calculateFidelity_ground_state toDict_ground_state
  by (simp add: totalError_def)

section \<open>Two qubits, evaluated\<close>

lemma upt_four: "[0..<4] = [0, 1, 2, 3]"
  by (simp add: upt_rec)

lemma initialAmplitudes_two_qubits:
  "initialAmplitudes 2
     = [\<lparr>real_p = 1, imag_p = 0\<rparr>, \<lparr>real_p = 0, imag_p = 0\<rparr>,
        \<lparr>real_p = 0, imag_p = 0\<rparr>, \<lparr>real_p = 0, imag_p = 0\<rparr>]"
  by (simp add: initialAmplitudes_def eval_nat_numeral)

section \<open>Total probability\<close>

text \<open>
  C3. On \<open>n \<le> 31\<close> qubits: applied to an array of \<open>2 ^ n\<close> amplitudes, a gate whose
  target qubit is below \<open>n\<close> returns an array of the same length and the same total
  probability; and for every list of such gates, run from the basis state of index 0
  in the order of their time steps, the ideal probabilities are returned and sum to 1.
\<close>

theorem total_probability_preserved:
  assumes "n \<le> 31"
  shows "(length amplitudes = 2 ^ n \<and> qubit gate < n \<longrightarrow>
            (\<exists>newAmps. applyGate amplitudes gate = Inr newAmps \<and> length newAmps = 2 ^ n
               \<and> totalProbability newAmps = totalProbability amplitudes))
       \<and> ((\<forall>g\<in>set gates. qubit g < n) \<longrightarrow>
            (\<exists>probs. idealProbs n gates = Inr probs \<and> length probs = 2 ^ n
               \<and> sum_list probs = 1))"
  using applyGate_preserves[of amplitudes n gate] idealProbs_sum[OF assms, of gates] assms
  by blast

theorem total_probability_preserved_witness:
  "(2::nat) \<le> 31
   \<and> length (initialAmplitudes 2) = 2 ^ 2
   \<and> qubit \<lparr>gate_id = ''1'', gate_type = H, qubit = 0, control = None, time = 0\<rparr> < 2
   \<and> (\<exists>newAmps. applyGate (initialAmplitudes 2)
          \<lparr>gate_id = ''1'', gate_type = H, qubit = 0, control = None, time = 0\<rparr> = Inr newAmps
        \<and> length newAmps = 2 ^ 2
        \<and> totalProbability newAmps = totalProbability (initialAmplitudes 2))
   \<and> (\<exists>probs. idealProbs 2 bell_circuit = Inr probs \<and> length probs = 2 ^ 2 \<and> sum_list probs = 1)"
  using total_probability_preserved[of 2 "initialAmplitudes 2"
            "\<lparr>gate_id = ''1'', gate_type = H, qubit = 0, control = None, time = 0\<rparr>" bell_circuit]
  by (simp add: bell_circuit_def initialAmplitudes_def)

section \<open>The Hadamard update\<close>

text \<open>
  C5. On an array of \<open>2 ^ n\<close> amplitudes, \<open>n \<le> 31\<close>, a Hadamard gate on qubit \<open>q < n\<close>
  returns an array in which, for every index \<open>low\<close> with bit \<open>q\<close> clear and its partner
  \<open>high = low + 2 ^ q\<close>, the new \<open>low\<close> is \<open>(low + high) / sqrt 2\<close> and the new \<open>high\<close> is
  \<open>(low - high) / sqrt 2\<close> on real and imaginary parts, both from the amplitudes before
  the gate. The body of the loop runs at the indices with bit \<open>q\<close> clear, in order, so
  of every pair \<open>i\<close>, \<open>i XOR 2 ^ q\<close> exactly one member is visited, once.
\<close>

theorem hadamard_simultaneous_update:
  assumes "length amplitudes = 2 ^ n" "q < n" "n \<le> 31"
  shows "\<exists>newAmps.
      applyGate amplitudes \<lparr>gate_id = g, gate_type = H, qubit = q, control = c, time = t\<rparr>
        = Inr newAmps
      \<and> length newAmps = 2 ^ n
      \<and> (\<forall>low<2 ^ n. \<not> bit low q \<longrightarrow>
            low + 2 ^ q < 2 ^ n
            \<and> newAmps ! low
                = \<lparr>real_p = (real_p (amplitudes ! low) + real_p (amplitudes ! (low + 2 ^ q))) / sqrt 2,
                   imag_p = (imag_p (amplitudes ! low) + imag_p (amplitudes ! (low + 2 ^ q))) / sqrt 2\<rparr>
            \<and> newAmps ! (low + 2 ^ q)
                = \<lparr>real_p = (real_p (amplitudes ! low) - real_p (amplitudes ! (low + 2 ^ q))) / sqrt 2,
                   imag_p = (imag_p (amplitudes ! low) - imag_p (amplitudes ! (low + 2 ^ q))) / sqrt 2\<rparr>)
      \<and> H_visited (shl1 q) [0..<2 ^ n] {} = filter (\<lambda>i. \<not> bit i q) [0..<2 ^ n]
      \<and> (\<forall>i<2 ^ n. count_list (H_visited (shl1 q) [0..<2 ^ n] {}) i
                     + count_list (H_visited (shl1 q) [0..<2 ^ n] {}) (i XOR 2 ^ q) = 1)"
proof -
  from H_gate_result[OF assms, of g c t] obtain newAmps where
    r: "applyGate amplitudes \<lparr>gate_id = g, gate_type = H, qubit = q, control = c, time = t\<rparr>
          = Inr newAmps"
       "length newAmps = 2 ^ n" "\<forall>x<2 ^ n. newAmps ! x = spec_hadamard amplitudes q x"
    by blast
  have v: "H_visited (shl1 q) [0..<2 ^ n] {} = filter (\<lambda>i. \<not> bit i q) [0..<2 ^ n]"
    by (rule H_visited_result[OF assms(2,3)])
  have pairs: "\<forall>low<2 ^ n. \<not> bit low q \<longrightarrow>
            low + 2 ^ q < 2 ^ n
            \<and> newAmps ! low
                = \<lparr>real_p = (real_p (amplitudes ! low) + real_p (amplitudes ! (low + 2 ^ q))) / sqrt 2,
                   imag_p = (imag_p (amplitudes ! low) + imag_p (amplitudes ! (low + 2 ^ q))) / sqrt 2\<rparr>
            \<and> newAmps ! (low + 2 ^ q)
                = \<lparr>real_p = (real_p (amplitudes ! low) - real_p (amplitudes ! (low + 2 ^ q))) / sqrt 2,
                   imag_p = (imag_p (amplitudes ! low) - imag_p (amplitudes ! (low + 2 ^ q))) / sqrt 2\<rparr>"
  proof (intro allI impI)
    fix low :: nat assume low: "low < 2 ^ n" "\<not> bit low q"
    have h: "low + 2 ^ q < 2 ^ n"
      using partner_in_range[OF low(1) assms(2)] low(2) by (simp add: xor_pow2_nat(1))
    from r(3) low(1) have "newAmps ! low = spec_hadamard amplitudes q low" by simp
    moreover from r(3) h have "newAmps ! (low + 2 ^ q) = spec_hadamard amplitudes q (low + 2 ^ q)"
      by simp
    ultimately show "low + 2 ^ q < 2 ^ n
            \<and> newAmps ! low
                = \<lparr>real_p = (real_p (amplitudes ! low) + real_p (amplitudes ! (low + 2 ^ q))) / sqrt 2,
                   imag_p = (imag_p (amplitudes ! low) + imag_p (amplitudes ! (low + 2 ^ q))) / sqrt 2\<rparr>
            \<and> newAmps ! (low + 2 ^ q)
                = \<lparr>real_p = (real_p (amplitudes ! low) - real_p (amplitudes ! (low + 2 ^ q))) / sqrt 2,
                   imag_p = (imag_p (amplitudes ! low) - imag_p (amplitudes ! (low + 2 ^ q))) / sqrt 2\<rparr>"
      using h bit_add_pow2[OF low(2)] low(2) by (simp add: spec_hadamard_def Let_def)
  qed
  have once: "\<forall>i<2 ^ n. count_list (H_visited (shl1 q) [0..<2 ^ n] {}) i
                     + count_list (H_visited (shl1 q) [0..<2 ^ n] {}) (i XOR 2 ^ q) = 1"
  proof (intro allI impI)
    fix i :: nat assume i: "i < 2 ^ n"
    from partner_in_range[OF i assms(2)] partner_bit[of i q] i
    show "count_list (H_visited (shl1 q) [0..<2 ^ n] {}) i
            + count_list (H_visited (shl1 q) [0..<2 ^ n] {}) (i XOR 2 ^ q) = 1"
      unfolding v count_list_filter_upt by simp
  qed
  from r(1,2) pairs v once show ?thesis by blast
qed

theorem hadamard_simultaneous_update_witness:
  "length (initialAmplitudes 2) = 2 ^ 2 \<and> (0::nat) < 2 \<and> (2::nat) \<le> 31
   \<and> (\<exists>newAmps. applyGate (initialAmplitudes 2)
          \<lparr>gate_id = ''1'', gate_type = H, qubit = 0, control = None, time = 0\<rparr> = Inr newAmps
        \<and> newAmps ! 0 = \<lparr>real_p = 1 / sqrt 2, imag_p = 0\<rparr>
        \<and> newAmps ! 1 = \<lparr>real_p = 1 / sqrt 2, imag_p = 0\<rparr>)
   \<and> H_visited (shl1 0) [0..<2 ^ 2] {} = [0, 2]"
proof -
  have h: "length (initialAmplitudes 2) = 2 ^ 2" "(0::nat) < 2" "(2::nat) \<le> 31"
    by (simp_all add: initialAmplitudes_def)
  from hadamard_simultaneous_update[OF h, of "''1''" None 0] obtain newAmps where
    r: "applyGate (initialAmplitudes 2)
          \<lparr>gate_id = ''1'', gate_type = H, qubit = 0, control = None, time = 0\<rparr> = Inr newAmps"
    and p: "\<forall>low<2 ^ 2. \<not> bit low 0 \<longrightarrow>
            low + 2 ^ 0 < 2 ^ 2
            \<and> newAmps ! low
                = \<lparr>real_p = (real_p (initialAmplitudes 2 ! low) + real_p (initialAmplitudes 2 ! (low + 2 ^ 0))) / sqrt 2,
                   imag_p = (imag_p (initialAmplitudes 2 ! low) + imag_p (initialAmplitudes 2 ! (low + 2 ^ 0))) / sqrt 2\<rparr>
            \<and> newAmps ! (low + 2 ^ 0)
                = \<lparr>real_p = (real_p (initialAmplitudes 2 ! low) - real_p (initialAmplitudes 2 ! (low + 2 ^ 0))) / sqrt 2,
                   imag_p = (imag_p (initialAmplitudes 2 ! low) - imag_p (initialAmplitudes 2 ! (low + 2 ^ 0))) / sqrt 2\<rparr>"
    and v: "H_visited (shl1 0) [0..<2 ^ 2] {} = filter (\<lambda>i. \<not> bit i 0) [0..<2 ^ 2]"
    by blast
  from p[rule_format, of 0] have
    "newAmps ! 0 = \<lparr>real_p = 1 / sqrt 2, imag_p = 0\<rparr>
     \<and> newAmps ! 1 = \<lparr>real_p = 1 / sqrt 2, imag_p = 0\<rparr>"
    by (simp add: initialAmplitudes_two_qubits)
  moreover have "filter (\<lambda>i. \<not> bit i 0) [0..<2 ^ 2] = [0::nat, 2]"
    by (simp add: upt_four bit_0)
  ultimately show ?thesis using r v h by simp
qed

section \<open>The Bell state\<close>

lemma shl1_0: "shl1 0 = 1"
  by (simp add: shl1_def toInt32_def)

lemma shl1_Suc_0: "shl1 (Suc 0) = 2"
  by (simp add: shl1_def toInt32_def)

lemma bell_after_hadamard:
  "applyGate [\<lparr>real_p = 1, imag_p = 0\<rparr>, \<lparr>real_p = 0, imag_p = 0\<rparr>,
              \<lparr>real_p = 0, imag_p = 0\<rparr>, \<lparr>real_p = 0, imag_p = 0\<rparr>]
     \<lparr>gate_id = ''1'', gate_type = H, qubit = 0, control = None, time = 0\<rparr>
   = Inr [\<lparr>real_p = invSqrt2, imag_p = 0\<rparr>, \<lparr>real_p = invSqrt2, imag_p = 0\<rparr>,
          \<lparr>real_p = 0, imag_p = 0\<rparr>, \<lparr>real_p = 0, imag_p = 0\<rparr>]"
  by (simp add: applyGate_def upt_four shl1_0 xor32_def and32_def toInt32_def elem_at_def)

lemma bell_after_cnot:
  "applyGate [\<lparr>real_p = invSqrt2, imag_p = 0\<rparr>, \<lparr>real_p = invSqrt2, imag_p = 0\<rparr>,
              \<lparr>real_p = 0, imag_p = 0\<rparr>, \<lparr>real_p = 0, imag_p = 0\<rparr>]
     \<lparr>gate_id = ''2'', gate_type = CNOT, qubit = 1, control = Some 0, time = 1\<rparr>
   = Inr [\<lparr>real_p = invSqrt2, imag_p = 0\<rparr>, \<lparr>real_p = 0, imag_p = 0\<rparr>,
          \<lparr>real_p = 0, imag_p = 0\<rparr>, \<lparr>real_p = invSqrt2, imag_p = 0\<rparr>]"
  by (simp add: applyGate_def upt_four shl1_0 shl1_Suc_0 xor32_def and32_def toInt32_def elem_at_def swap_def)

lemma bell_sorted: "sort_key time bell_circuit = bell_circuit"
  by (simp add: bell_circuit_def)

lemma bell_probs: "idealProbs 2 bell_circuit = Inr [1 / 2, 0, 0, 1 / 2]"
proof -
  have "applyGates (initialAmplitudes 2) bell_circuit
          = Inr [\<lparr>real_p = invSqrt2, imag_p = 0\<rparr>, \<lparr>real_p = 0, imag_p = 0\<rparr>,
                 \<lparr>real_p = 0, imag_p = 0\<rparr>, \<lparr>real_p = invSqrt2, imag_p = 0\<rparr>]"
    by (simp only: bell_circuit_def initialAmplitudes_two_qubits applyGates.simps bell_after_hadamard bell_after_cnot sum.case)
  then show ?thesis
    by (simp add: idealProbs_def bell_sorted invSqrt2_def power_divide)
qed

lemma bell_dict:
  "toDict 2 [1 / 2, 0, 0, 1 / 2]
     = [''00'' \<mapsto> 1 / 2, ''01'' \<mapsto> 0, ''10'' \<mapsto> 0, ''11'' \<mapsto> 1 / 2]"
  by (simp add: toDict_def upt_four padStart_def)

text \<open>
  C9. The Bell circuit on two qubits has the ideal probabilities 1/2, 0, 0, 1/2 at the
  indices 0 to 3, and every result \<open>simulate\<close> returns for it, whatever the noise, maps
  the labels 00, 01, 10, 11 to them.
\<close>

theorem bell_state_distribution:
  "idealProbs 2 bell_circuit = Inr [1 / 2, 0, 0, 1 / 2]
   \<and> (\<forall>noise result. simulate 2 bell_circuit noise = Inr result \<longrightarrow>
         probabilities result = [''00'' \<mapsto> 1 / 2, ''01'' \<mapsto> 0, ''10'' \<mapsto> 0, ''11'' \<mapsto> 1 / 2])"
  by (auto simp add: simulate_def bell_probs bell_dict split: sum.splits)

lemma bell_depolarized:
  "applyNoiseModel [1 / 2, 0, 0, 1 / 2] \<lparr>noise_type = DEPOLARIZING, probability = 1 / 2\<rparr> 2
     = Inr [5 / 16, 3 / 16, 3 / 16, 5 / 16]"
  by (simp add: applyNoiseModel_def perturb_def renormalize_def totalError_def power2_eq_square)

lemma bell_fidelity:
  "calculateFidelity [1 / 2, 0, 0, 1 / 2] [5 / 16, 3 / 16, 3 / 16, 5 / 16] = Inr (5 / 8)"
  by (simp add: calculateFidelity_def elem_at_def upt_four)

theorem bell_state_distribution_witness:
  "\<exists>result. simulate 2 bell_circuit \<lparr>noise_type = DEPOLARIZING, probability = 1 / 2\<rparr> = Inr result
     \<and> probabilities result = [''00'' \<mapsto> 1 / 2, ''01'' \<mapsto> 0, ''10'' \<mapsto> 0, ''11'' \<mapsto> 1 / 2]"
proof -
  have len: "length bell_circuit = 2" by (simp add: bell_circuit_def)
  have "\<exists>result. simulate 2 bell_circuit \<lparr>noise_type = DEPOLARIZING, probability = 1 / 2\<rparr> = Inr result"
    unfolding simulate_def bell_probs sum.case len bell_depolarized bell_fidelity by simp
  with bell_state_distribution show ?thesis by blast
qed

end
